theory Spec2Isabelle
  imports Main "HOL-Library.Sublist" "HOL-Library.Char_ord" "HOL-Library.List_Lexorder"
begin

section \<open>Data model\<close>

text \<open>
  The package \<^verbatim>\<open>resolveddependencies\<close> (SLSA v2alpha2) of Tekton Chains builds the
  list of resolved dependencies of a TaskRun or a PipelineRun. Go strings are byte
  sequences, as \<^typ>\<open>string\<close> is. A Go \<^verbatim>\<open>error\<close> value carries a message. A function
  returning \<^verbatim>\<open>(value, error)\<close> returns a pair here, the error being \<open>None\<close> for Go's
  \<^verbatim>\<open>nil\<close>: whether a list comes back together with an error is then something to
  prove and not a matter of typing. A nil slice and an empty slice are both \<open>[]\<close>.
\<close>

datatype error = Error string

text \<open>
  \<^verbatim>\<open>common.DigestSet\<close> is \<^verbatim>\<open>map[string]string\<close>. It is kept as the list of its
  entries, in whatever order the entries were inserted; a list stands for a Go map when
  its keys are distinct.
\<close>

type_synonym DigestSet = "(string \<times> string) list"

text \<open>\<^verbatim>\<open>common.ProvenanceMaterial\<close>.\<close>

record ProvenanceMaterial =
  mat_URI :: string
  mat_Digest :: DigestSet

text \<open>
  \<^verbatim>\<open>v1.ResourceDescriptor\<close>, with the three fields this package reads and writes
  (the others keep their zero value throughout).
\<close>

record ResourceDescriptor =
  Name :: string
  URI :: string
  Digest :: DigestSet

text \<open>The parts of the Tekton status objects that the package reads.\<close>

record RefSource =
  ref_URI :: string
  ref_Digest :: DigestSet

record Provenance =
  RefSource :: "RefSource option"

record StepState =
  step_ImageID :: string

record SidecarState =
  sidecar_ImageID :: string

record TaskRunStatus =
  tr_Provenance :: "Provenance option"
  tr_Steps :: "StepState list"
  tr_Sidecars :: "SidecarState list"
  tr_CompletionTime :: "int option"

record TaskRunObject =
  tr_Status :: TaskRunStatus

record PipelineTask =
  pt_Name :: string

record PipelineSpec =
  Tasks :: "PipelineTask list"
  Finally :: "PipelineTask list"

record PipelineRunStatus =
  pr_Provenance :: "Provenance option"
  pr_PipelineSpec :: "PipelineSpec option"

text \<open>
  \<^verbatim>\<open>GetTaskRunFromTask\<close> is a method of the PipelineRun object; it is a field here,
  the lookup from the name of a pipeline task to its TaskRun (\<open>None\<close> for \<^verbatim>\<open>nil\<close>).
\<close>

record PipelineRunObject =
  pr_Status :: PipelineRunStatus
  GetTaskRunFromTask :: "string \<Rightarrow> TaskRunObject option"

text \<open>\<^verbatim>\<open>slsaconfig.SlsaConfig\<close>.\<close>

record SlsaConfig =
  BuilderID :: string
  DeepInspectionEnabled :: bool
  BuildType :: string

text \<open>
  The functions of package \<^verbatim>\<open>material\<close> that the resolvers call are parameters of the
  model. The context argument only carries the logger and is left out.
\<close>

record material =
  FromStepImages :: "StepState list \<Rightarrow> ProvenanceMaterial list \<times> error option"
  FromSidecarImages :: "SidecarState list \<Rightarrow> ProvenanceMaterial list \<times> error option"
  FromTaskParamsAndResults :: "TaskRunObject \<Rightarrow> ProvenanceMaterial list"
  FromTaskResources :: "TaskRunObject \<Rightarrow> ProvenanceMaterial list"
  FromPipelineParamsAndResults :: "PipelineRunObject \<Rightarrow> SlsaConfig \<Rightarrow> ProvenanceMaterial list"

section \<open>Constants\<close>

definition pipelineConfigName :: string where
  "pipelineConfigName = ''pipeline''"

definition taskConfigName :: string where
  "taskConfigName = ''task''"

definition pipelineTaskConfigName :: string where
  "pipelineTaskConfigName = ''pipelineTask''"

definition inputResultName :: string where
  "inputResultName = ''inputs/result''"

definition pipelineResourceName :: string where
  "pipelineResourceName = ''pipelineResource''"

section \<open>convertMaterialsToResolvedDependencies\<close>

definition convertMaterialsToResolvedDependencies ::
  "ProvenanceMaterial list \<Rightarrow> string \<Rightarrow> ResourceDescriptor list" where
  "convertMaterialsToResolvedDependencies mats name =
     map (\<lambda>mat.
            let rd = \<lparr>Name = [], URI = mat_URI mat, Digest = mat_Digest mat\<rparr>
            in if length name > 0 then rd\<lparr>Name := name\<rparr> else rd) mats"

section \<open>removeDuplicateResolvedDependencies\<close>

text \<open>
  \<^verbatim>\<open>seen\<close> is a \<^verbatim>\<open>map[string]bool\<close>; indexing it at an absent key gives \<^verbatim>\<open>false\<close>.
\<close>

definition seen_index :: "(string \<rightharpoonup> bool) \<Rightarrow> string \<Rightarrow> bool" where
  "seen_index seen k = (case seen k of None \<Rightarrow> False | Some b \<Rightarrow> b)"

text \<open>
  The loop of \<^verbatim>\<open>removeDuplicateResolvedDependencies\<close>, with the map \<^verbatim>\<open>seen\<close> and the
  slice \<^verbatim>\<open>out\<close> as its state. \<^verbatim>\<open>json.Marshal\<close> belongs to Go's standard library and is
  the parameter \<open>marshal\<close>.
\<close>

fun removeDuplicate_loop ::
  "(ResourceDescriptor \<Rightarrow> string \<times> error option) \<Rightarrow> (string \<rightharpoonup> bool) \<Rightarrow>
   ResourceDescriptor list \<Rightarrow> ResourceDescriptor list \<Rightarrow>
   ResourceDescriptor list \<times> error option" where
  "removeDuplicate_loop marshal seen out [] = (out, None)"
| "removeDuplicate_loop marshal seen out (resolvedDependency # rest) =
     (let rDep = \<lparr>Name = [], URI = URI resolvedDependency, Digest = Digest resolvedDependency\<rparr>
      in case marshal rDep of (rd, err) \<Rightarrow>
        if err \<noteq> None then ([], err)
        else if seen_index seen rd \<and>
                \<not> (Name resolvedDependency = taskConfigName \<or>
                   Name resolvedDependency = pipelineConfigName)
        then removeDuplicate_loop marshal seen out rest
        else removeDuplicate_loop marshal (seen(rd \<mapsto> True)) (out @ [resolvedDependency]) rest)"

definition removeDuplicateResolvedDependencies ::
  "(ResourceDescriptor \<Rightarrow> string \<times> error option) \<Rightarrow> ResourceDescriptor list \<Rightarrow>
   ResourceDescriptor list \<times> error option" where
  "removeDuplicateResolvedDependencies marshal resolvedDependencies =
     removeDuplicate_loop marshal Map.empty [] resolvedDependencies"

section \<open>TaskRun\<close>

definition configDescriptor :: "string \<Rightarrow> Provenance option \<Rightarrow> ResourceDescriptor list" where
  "configDescriptor name prov =
     (case prov of
        None \<Rightarrow> []
      | Some p \<Rightarrow>
          (case RefSource p of
             None \<Rightarrow> []
           | Some r \<Rightarrow> [\<lparr>Name = name, URI = ref_URI r, Digest = ref_Digest r\<rparr>]))"

definition TaskRun ::
  "(ResourceDescriptor \<Rightarrow> string \<times> error option) \<Rightarrow> material \<Rightarrow> TaskRunObject \<Rightarrow>
   ResourceDescriptor list \<times> error option" where
  "TaskRun marshal m tro =
     (let resolvedDependencies = configDescriptor taskConfigName (tr_Provenance (tr_Status tro))
      in case FromStepImages m (tr_Steps (tr_Status tro)) of (stepMaterials, err) \<Rightarrow>
        if err \<noteq> None then ([], err)
        else case FromSidecarImages m (tr_Sidecars (tr_Status tro)) of (sidecarMaterials, err) \<Rightarrow>
          if err \<noteq> None then ([], err)
          else
            let mats = stepMaterials @ sidecarMaterials;
                resolvedDependencies =
                  resolvedDependencies @ convertMaterialsToResolvedDependencies mats [];
                mats = FromTaskParamsAndResults m tro;
                resolvedDependencies =
                  resolvedDependencies @ convertMaterialsToResolvedDependencies mats inputResultName;
                mats = FromTaskResources m tro;
                resolvedDependencies =
                  resolvedDependencies @
                  convertMaterialsToResolvedDependencies mats pipelineResourceName
            in case removeDuplicateResolvedDependencies marshal resolvedDependencies of
                 (resolvedDependencies, err) \<Rightarrow>
                   if err \<noteq> None then ([], err) else (resolvedDependencies, None))"

section \<open>PipelineRun\<close>

text \<open>
  The loop of \<^verbatim>\<open>fromPipelineTask\<close> over the pipeline tasks, with the slice
  \<^verbatim>\<open>resolvedDependencies\<close> as its state. The log line of a skipped task is not modelled.
\<close>

fun fromPipelineTask_loop ::
  "material \<Rightarrow> PipelineRunObject \<Rightarrow> ResourceDescriptor list \<Rightarrow> PipelineTask list \<Rightarrow>
   ResourceDescriptor list \<times> error option" where
  "fromPipelineTask_loop m pro resolvedDependencies [] = (resolvedDependencies, None)"
| "fromPipelineTask_loop m pro resolvedDependencies (t # rest) =
     (case GetTaskRunFromTask pro (pt_Name t) of
        None \<Rightarrow> fromPipelineTask_loop m pro resolvedDependencies rest
      | Some tr \<Rightarrow>
          if tr_CompletionTime (tr_Status tr) = None
          then fromPipelineTask_loop m pro resolvedDependencies rest
          else
            let resolvedDependencies =
                  resolvedDependencies @
                  configDescriptor pipelineTaskConfigName (tr_Provenance (tr_Status tr))
            in case FromStepImages m (tr_Steps (tr_Status tr)) of (stepMaterials, err) \<Rightarrow>
              if err \<noteq> None then ([], err)
              else case FromSidecarImages m (tr_Sidecars (tr_Status tr)) of
                (sidecarMaterials, err) \<Rightarrow>
                  if err \<noteq> None then ([], err)
                  else fromPipelineTask_loop m pro
                         (resolvedDependencies @
                          convertMaterialsToResolvedDependencies
                            (stepMaterials @ sidecarMaterials) [])
                         rest)"

definition fromPipelineTask ::
  "material \<Rightarrow> PipelineRunObject \<Rightarrow> ResourceDescriptor list \<times> error option" where
  "fromPipelineTask m pro =
     (case pr_PipelineSpec (pr_Status pro) of
        None \<Rightarrow> ([], None)
      | Some pSpec \<Rightarrow> fromPipelineTask_loop m pro [] (Tasks pSpec @ Finally pSpec))"

definition PipelineRun ::
  "(ResourceDescriptor \<Rightarrow> string \<times> error option) \<Rightarrow> material \<Rightarrow> PipelineRunObject \<Rightarrow>
   SlsaConfig \<Rightarrow> ResourceDescriptor list \<times> error option" where
  "PipelineRun marshal m pro slsaconfig =
     (let resolvedDependencies =
            configDescriptor pipelineConfigName (pr_Provenance (pr_Status pro))
      in case fromPipelineTask m pro of (rds, err) \<Rightarrow>
        if err \<noteq> None then ([], err)
        else
          let resolvedDependencies = resolvedDependencies @ rds;
              mats = FromPipelineParamsAndResults m pro slsaconfig;
              resolvedDependencies =
                resolvedDependencies @ convertMaterialsToResolvedDependencies mats inputResultName
          in case removeDuplicateResolvedDependencies marshal resolvedDependencies of
               (resolvedDependencies, err) \<Rightarrow>
                 if err \<noteq> None then ([], err) else (resolvedDependencies, None))"

section \<open>json.Marshal on a resource descriptor\<close>

text \<open>
  Modelled from the spec: \<^verbatim>\<open>json.Marshal\<close> is Go's standard library and not part of
  the sources; the spec asks for a canonical serialization of (URI, Digest) that writes
  the keys of the digest mapping in a stable, sorted order and that does not fail on a
  well-formed descriptor. The definitions below follow what \<^verbatim>\<open>encoding/json\<close> writes for
  a \<^verbatim>\<open>v1.ResourceDescriptor\<close>: the fields \<^verbatim>\<open>uri\<close>, \<^verbatim>\<open>digest\<close> and \<^verbatim>\<open>name\<close>, in this
  order and each left out when empty; the keys of a map in sorted order; a string between
  double quotes, with the double quote, the backslash, the control characters and the
  characters \<^verbatim>\<open><\<close>, \<^verbatim>\<open>>\<close>, \<^verbatim>\<open>&\<close> escaped (backspace and form feed in the \<^verbatim>\<open>\u00XX\<close>
  form). The encoder coerces a string to valid UTF-8: a well-formed multi-byte sequence
  is copied, except that the code points U+2028 and U+2029 are written \<^verbatim>\<open>\u2028\<close> and
  \<^verbatim>\<open>\u2029\<close>, and every byte that does not start a well-formed sequence is written as
  the replacement character, \<^verbatim>\<open>\ufffd\<close>.
\<close>

definition hex_digit :: "nat \<Rightarrow> char" where
  "hex_digit n = ''0123456789abcdef'' ! (n mod 16)"

definition json_escape :: "char \<Rightarrow> string" where
  "json_escape c =
     (if c = CHR 0x22 then [CHR 0x5C, CHR 0x22]
      else if c = CHR 0x5C then [CHR 0x5C, CHR 0x5C]
      else if c = CHR 0x0A then [CHR 0x5C, CHR ''n'']
      else if c = CHR 0x0D then [CHR 0x5C, CHR ''r'']
      else if c = CHR 0x09 then [CHR 0x5C, CHR ''t'']
      else if (of_char c :: nat) < 0x20 \<or> c = CHR ''<'' \<or> c = CHR ''>'' \<or> c = CHR ''&''
      then [CHR 0x5C] @ ''u00'' @ [hex_digit (of_char c div 16), hex_digit (of_char c)]
      else [c])"

text \<open>
  The number of bytes of the well-formed UTF-8 sequence of two to four bytes that starts
  a string, or 0 when the string does not start with one (the table of Go's
  \<^verbatim>\<open>unicode/utf8\<close>: no overlong form, no surrogate, nothing above U+10FFFF).
\<close>

definition utf8_cont :: "char \<Rightarrow> bool" where
  "utf8_cont c = (0x80 \<le> (of_char c :: nat) \<and> (of_char c :: nat) \<le> 0xBF)"

definition utf8_size :: "string \<Rightarrow> nat" where
  "utf8_size s =
     (case s of
        [] \<Rightarrow> 0
      | b0 # r \<Rightarrow>
          let n = (of_char b0 :: nat) in
          if 0xC2 \<le> n \<and> n \<le> 0xDF then
            (case r of
               b1 # _ \<Rightarrow> if utf8_cont b1 then 2 else 0
             | _ \<Rightarrow> 0)
          else if 0xE0 \<le> n \<and> n \<le> 0xEF then
            (case r of
               b1 # b2 # _ \<Rightarrow>
                 if (if n = 0xE0 then 0xA0 else 0x80) \<le> (of_char b1 :: nat) \<and>
                    (of_char b1 :: nat) \<le> (if n = 0xED then 0x9F else 0xBF) \<and> utf8_cont b2
                 then 3 else 0
             | _ \<Rightarrow> 0)
          else if 0xF0 \<le> n \<and> n \<le> 0xF4 then
            (case r of
               b1 # b2 # b3 # _ \<Rightarrow>
                 if (if n = 0xF0 then 0x90 else 0x80) \<le> (of_char b1 :: nat) \<and>
                    (of_char b1 :: nat) \<le> (if n = 0xF4 then 0x8F else 0xBF) \<and>
                    utf8_cont b2 \<and> utf8_cont b3
                 then 4 else 0
             | _ \<Rightarrow> 0)
          else 0)"

text \<open>The characters of a string as the encoder writes them between the quotes.\<close>

fun json_chars :: "string \<Rightarrow> string" where
  "json_chars [] = []"
| "json_chars (b # s) =
     (if (of_char b :: nat) < 0x80 then json_escape b @ json_chars s
      else case utf8_size (b # s) of
        0 \<Rightarrow> [CHR 0x5C] @ ''ufffd'' @ json_chars s
      | Suc k \<Rightarrow>
          (if take (Suc k) (b # s) = [CHR 0xE2, CHR 0x80, CHR 0xA8] then [CHR 0x5C] @ ''u2028''
           else if take (Suc k) (b # s) = [CHR 0xE2, CHR 0x80, CHR 0xA9] then [CHR 0x5C] @ ''u2029''
           else take (Suc k) (b # s))
          @ json_chars (drop k s))"

definition json_string :: "string \<Rightarrow> string" where
  "json_string s = [CHR 0x22] @ json_chars s @ [CHR 0x22]"

fun comma_join :: "string list \<Rightarrow> string" where
  "comma_join [] = []"
| "comma_join [x] = x"
| "comma_join (x # y # ys) = x @ '','' @ comma_join (y # ys)"

text \<open>
  Modelled from the spec: the digest mapping is written with its keys in sorted order
  (\<^verbatim>\<open>json.Marshal\<close> of a Go map, standard library, not part of the sources).
\<close>

definition json_DigestSet :: "DigestSet \<Rightarrow> string" where
  "json_DigestSet d =
     ''{'' @ comma_join (map (\<lambda>(k, v). json_string k @ '':'' @ json_string v) (sort_key fst d))
     @ ''}''"

text \<open>
  Modelled from the spec: the canonical serialization of a descriptor
  (\<^verbatim>\<open>json.Marshal\<close> of a \<^verbatim>\<open>v1.ResourceDescriptor\<close>, standard library and \<^verbatim>\<open>in-toto\<close>
  struct tags, not part of the sources); it never fails.
\<close>

definition json_Marshal :: "ResourceDescriptor \<Rightarrow> string \<times> error option" where
  "json_Marshal v =
     (''{'' @
      comma_join
        ((if URI v = [] then [] else [json_string ''uri'' @ '':'' @ json_string (URI v)]) @
         (if Digest v = [] then [] else [json_string ''digest'' @ '':'' @ json_DigestSet (Digest v)]) @
         (if Name v = [] then [] else [json_string ''name'' @ '':'' @ json_string (Name v)]))
      @ ''}'', None)"

section \<open>Notions used to state the properties\<close>

text \<open>An entry is protected when it is named as the top-level task or pipeline config.\<close>

definition protected_name :: "ResourceDescriptor \<Rightarrow> bool" where
  "protected_name r = (Name r = taskConfigName \<or> Name r = pipelineConfigName)"

text \<open>
  The copy of an entry that \<^verbatim>\<open>removeDuplicateResolvedDependencies\<close> serializes, the
  string it then looks up in \<^verbatim>\<open>seen\<close>, and the error of that serialization.
\<close>

definition rDep_of :: "ResourceDescriptor \<Rightarrow> ResourceDescriptor" where
  "rDep_of r = \<lparr>Name = [], URI = URI r, Digest = Digest r\<rparr>"

definition identity_key ::
  "(ResourceDescriptor \<Rightarrow> string \<times> error option) \<Rightarrow> ResourceDescriptor \<Rightarrow> string" where
  "identity_key marshal r = fst (marshal (rDep_of r))"

definition marshal_err ::
  "(ResourceDescriptor \<Rightarrow> string \<times> error option) \<Rightarrow> ResourceDescriptor \<Rightarrow> error option" where
  "marshal_err marshal r = snd (marshal (rDep_of r))"

text \<open>
  The entries that get through when every serialization succeeds, as a function of the
  set of keys seen so far.
\<close>

fun survivors ::
  "(ResourceDescriptor \<Rightarrow> string) \<Rightarrow> string set \<Rightarrow> ResourceDescriptor list \<Rightarrow>
   ResourceDescriptor list" where
  "survivors key S [] = []"
| "survivors key S (r # rs) =
     (if key r \<in> S \<and> \<not> protected_name r then survivors key S rs
      else r # survivors key (insert (key r) S) rs)"


text \<open>
  The error that the image extraction raises in the pipeline task \<open>t\<close>: none when the
  task has no TaskRun or its TaskRun has no completion time, since no extraction is then
  attempted; otherwise the error of the step images or, when these are extracted, that of
  the sidecar images.
\<close>

definition pipelineTask_error ::
  "material \<Rightarrow> PipelineRunObject \<Rightarrow> PipelineTask \<Rightarrow> error option" where
  "pipelineTask_error m pro t =
     (case GetTaskRunFromTask pro (pt_Name t) of
        None \<Rightarrow> None
      | Some tr \<Rightarrow>
          if tr_CompletionTime (tr_Status tr) = None then None
          else (case snd (FromStepImages m (tr_Steps (tr_Status tr))) of
                  Some e \<Rightarrow> Some e
                | None \<Rightarrow> snd (FromSidecarImages m (tr_Sidecars (tr_Status tr)))))"

section \<open>Example values\<close>

definition ex_task :: ResourceDescriptor where
  "ex_task = \<lparr>Name = ''task'', URI = ''a'', Digest = [(''sha256'', ''x'')]\<rparr>"

definition ex_plain :: ResourceDescriptor where
  "ex_plain = \<lparr>Name = [], URI = ''a'', Digest = [(''sha256'', ''x'')]\<rparr>"

definition ex_input :: ResourceDescriptor where
  "ex_input = \<lparr>Name = ''inputs/result'', URI = ''a'', Digest = [(''sha256'', ''x'')]\<rparr>"

definition ex_other :: ResourceDescriptor where
  "ex_other = \<lparr>Name = [], URI = ''b'', Digest = [(''sha256'', ''y''), (''sha1'', ''z'')]\<rparr>"

definition ex_other_rev :: ResourceDescriptor where
  "ex_other_rev = \<lparr>Name = [], URI = ''b'', Digest = [(''sha1'', ''z''), (''sha256'', ''y'')]\<rparr>"

definition ex_ref :: RefSource where
  "ex_ref = \<lparr>ref_URI = ''git.example/repo'', ref_Digest = [(''sha1'', ''abc'')]\<rparr>"

definition ex_step_mat :: ProvenanceMaterial where
  "ex_step_mat = \<lparr>mat_URI = ''reg/img'', mat_Digest = [(''sha256'', ''d1'')]\<rparr>"

definition ex_input_mat :: ProvenanceMaterial where
  "ex_input_mat = \<lparr>mat_URI = ''param/foo'', mat_Digest = [(''sha256'', ''d2'')]\<rparr>"

text \<open>
  A stand-in for package \<^verbatim>\<open>material\<close>: an image gives the material \<open>ex_step_mat\<close>, an
  image without an identifier makes the extraction fail, and the parameters and results
  give the material \<open>ex_input_mat\<close>.
\<close>

definition ex_material :: material where
  "ex_material =
     \<lparr>FromStepImages =
        (\<lambda>steps. if \<exists>s\<in>set steps. step_ImageID s = []
                 then ([], Some (Error ''bad step image''))
                 else (map (\<lambda>s. ex_step_mat) steps, None)),
      FromSidecarImages =
        (\<lambda>sidecars. if \<exists>s\<in>set sidecars. sidecar_ImageID s = []
                    then ([], Some (Error ''bad sidecar image''))
                    else (map (\<lambda>s. ex_step_mat) sidecars, None)),
      FromTaskParamsAndResults = (\<lambda>tro. [ex_input_mat]),
      FromTaskResources = (\<lambda>tro. []),
      FromPipelineParamsAndResults = (\<lambda>pro slsaconfig. [ex_input_mat])\<rparr>"

definition ex_tro :: TaskRunObject where
  "ex_tro =
     \<lparr>tr_Status =
        \<lparr>tr_Provenance = Some \<lparr>RefSource = Some ex_ref\<rparr>,
         tr_Steps = [\<lparr>step_ImageID = ''reg/img@sha256:d1''\<rparr>],
         tr_Sidecars = [],
         tr_CompletionTime = Some 1\<rparr>\<rparr>"

definition ex_tro_bad_step :: TaskRunObject where
  "ex_tro_bad_step =
     \<lparr>tr_Status =
        \<lparr>tr_Provenance = Some \<lparr>RefSource = Some ex_ref\<rparr>,
         tr_Steps = [\<lparr>step_ImageID = []\<rparr>],
         tr_Sidecars = [],
         tr_CompletionTime = Some 1\<rparr>\<rparr>"

definition ex_tro_bad_sidecar :: TaskRunObject where
  "ex_tro_bad_sidecar =
     \<lparr>tr_Status =
        \<lparr>tr_Provenance = Some \<lparr>RefSource = Some ex_ref\<rparr>,
         tr_Steps = [\<lparr>step_ImageID = ''reg/img@sha256:d1''\<rparr>],
         tr_Sidecars = [\<lparr>sidecar_ImageID = []\<rparr>],
         tr_CompletionTime = Some 1\<rparr>\<rparr>"

definition ex_tro_running :: TaskRunObject where
  "ex_tro_running =
     \<lparr>tr_Status =
        \<lparr>tr_Provenance = Some \<lparr>RefSource = Some ex_ref\<rparr>,
         tr_Steps = [\<lparr>step_ImageID = []\<rparr>],
         tr_Sidecars = [],
         tr_CompletionTime = None\<rparr>\<rparr>"

definition ex_pro :: PipelineRunObject where
  "ex_pro =
     \<lparr>pr_Status =
        \<lparr>pr_Provenance = Some \<lparr>RefSource = Some ex_ref\<rparr>,
         pr_PipelineSpec =
           Some \<lparr>Tasks = [\<lparr>pt_Name = ''A''\<rparr>, \<lparr>pt_Name = ''B''\<rparr>],
                 Finally = [\<lparr>pt_Name = ''C''\<rparr>]\<rparr>\<rparr>,
      GetTaskRunFromTask =
        (\<lambda>name. if name = ''A'' then Some ex_tro
                else if name = ''C'' then Some ex_tro_running else None)\<rparr>"

definition ex_pro_bad :: PipelineRunObject where
  "ex_pro_bad =
     \<lparr>pr_Status =
        \<lparr>pr_Provenance = Some \<lparr>RefSource = Some ex_ref\<rparr>,
         pr_PipelineSpec =
           Some \<lparr>Tasks = [\<lparr>pt_Name = ''A''\<rparr>, \<lparr>pt_Name = ''B''\<rparr>],
                 Finally = [\<lparr>pt_Name = ''C''\<rparr>]\<rparr>\<rparr>,
      GetTaskRunFromTask =
        (\<lambda>name. if name = ''A'' then Some ex_tro
                else if name = ''B'' then Some ex_tro_bad_sidecar else None)\<rparr>"

definition ex_pro_nospec :: PipelineRunObject where
  "ex_pro_nospec =
     \<lparr>pr_Status =
        \<lparr>pr_Provenance = Some \<lparr>RefSource = Some ex_ref\<rparr>, pr_PipelineSpec = None\<rparr>,
      GetTaskRunFromTask = (\<lambda>name. Some ex_tro_bad_step)\<rparr>"

definition ex_cfg :: SlsaConfig where
  "ex_cfg = \<lparr>BuilderID = ''builder'', DeepInspectionEnabled = False, BuildType = ''type''\<rparr>"

section \<open>The loop of the deduplicator\<close>

lemma seen_index_update:
  "{k. seen_index (seen(rd \<mapsto> True)) k} = insert rd {k. seen_index seen k}"
  by (auto simp: seen_index_def)

lemma seen_index_empty: "{k. seen_index Map.empty k} = {}"
  by (simp add: seen_index_def)

text \<open>On an error the loop returns no list.\<close>

lemma removeDuplicate_loop_error:
  "snd (removeDuplicate_loop marshal seen out rds) \<noteq> None \<Longrightarrow>
   fst (removeDuplicate_loop marshal seen out rds) = []"
  by (induction rds arbitrary: seen out) (auto simp: Let_def split: prod.splits if_splits)

text \<open>The loop fails exactly when the serialization of some entry fails.\<close>

lemma removeDuplicate_loop_ok_iff:
  "snd (removeDuplicate_loop marshal seen out rds) = None \<longleftrightarrow>
   (\<forall>r\<in>set rds. marshal_err marshal r = None)"
  by (induction rds arbitrary: seen out)
     (auto simp: Let_def marshal_err_def rDep_of_def split: prod.splits)

text \<open>One step of the loop, when the serialization succeeds.\<close>

lemma removeDuplicate_loop_skip:
  assumes "marshal (rDep_of r) = (rd, None)" and "seen_index seen rd" and "\<not> protected_name r"
  shows "removeDuplicate_loop marshal seen out (r # rds) =
         removeDuplicate_loop marshal seen out rds"
  using assms by (simp add: rDep_of_def protected_name_def)

lemma removeDuplicate_loop_keep:
  assumes "marshal (rDep_of r) = (rd, None)" and "\<not> seen_index seen rd \<or> protected_name r"
  shows "removeDuplicate_loop marshal seen out (r # rds) =
         removeDuplicate_loop marshal (seen(rd \<mapsto> True)) (out @ [r]) rds"
  using assms by (auto simp: rDep_of_def protected_name_def)

text \<open>When no serialization fails, the loop appends the survivors to \<open>out\<close>.\<close>

lemma removeDuplicate_loop_survivors:
  "\<forall>r\<in>set rds. marshal_err marshal r = None \<Longrightarrow>
   removeDuplicate_loop marshal seen out rds =
     (out @ survivors (identity_key marshal) {k. seen_index seen k} rds, None)"
proof (induction rds arbitrary: seen out)
  case Nil
  show ?case by simp
next
  case (Cons r rds)
  obtain rd err where m: "marshal (rDep_of r) = (rd, err)"
    by (cases "marshal (rDep_of r)")
  from Cons.prems have err: "err = None"
    using m by (simp add: marshal_err_def)
  have key: "identity_key marshal r = rd"
    using m by (simp add: identity_key_def)
  have rest: "\<forall>r\<in>set rds. marshal_err marshal r = None"
    using Cons.prems by simp
  show ?case
  proof (cases "seen_index seen rd \<and> \<not> protected_name r")
    case True
    have "removeDuplicate_loop marshal seen out (r # rds) =
          removeDuplicate_loop marshal seen out rds"
      using removeDuplicate_loop_skip [of marshal r rd seen out rds] m err True by simp
    also have "\<dots> = (out @ survivors (identity_key marshal) {k. seen_index seen k} rds, None)"
      by (rule Cons.IH [OF rest])
    finally show ?thesis
      using True key by simp
  next
    case False
    have "removeDuplicate_loop marshal seen out (r # rds) =
          removeDuplicate_loop marshal (seen(rd \<mapsto> True)) (out @ [r]) rds"
      using removeDuplicate_loop_keep [of marshal r rd seen out rds] m err False by blast
    also have "\<dots> = ((out @ [r]) @
        survivors (identity_key marshal) {k. seen_index (seen(rd \<mapsto> True)) k} rds, None)"
      by (rule Cons.IH [OF rest])
    finally show ?thesis
      using False key by (simp only: seen_index_update) auto
  qed
qed

lemma removeDuplicate_ok_iff:
  "snd (removeDuplicateResolvedDependencies marshal rds) = None \<longleftrightarrow>
   (\<forall>r\<in>set rds. marshal_err marshal r = None)"
  by (simp add: removeDuplicateResolvedDependencies_def removeDuplicate_loop_ok_iff)

lemma removeDuplicate_error:
  "snd (removeDuplicateResolvedDependencies marshal rds) \<noteq> None \<Longrightarrow>
   fst (removeDuplicateResolvedDependencies marshal rds) = []"
  by (simp add: removeDuplicateResolvedDependencies_def removeDuplicate_loop_error)

lemma removeDuplicate_survivors:
  "snd (removeDuplicateResolvedDependencies marshal rds) = None \<Longrightarrow>
   removeDuplicateResolvedDependencies marshal rds =
     (survivors (identity_key marshal) {} rds, None)"
proof -
  assume "snd (removeDuplicateResolvedDependencies marshal rds) = None"
  then have "\<forall>r\<in>set rds. marshal_err marshal r = None"
    by (simp only: removeDuplicate_ok_iff)
  from removeDuplicate_loop_survivors [OF this, of Map.empty "[]"]
  show ?thesis
    by (simp only: removeDuplicateResolvedDependencies_def seen_index_empty append_Nil)
qed

text \<open>
  The JSON serializer never fails, so with it every call of the deduplicator succeeds:
  the hypothesis of an error-free call, in the properties below, then holds for every
  input.
\<close>

lemma json_Marshal_ok: "marshal_err json_Marshal r = None"
  by (simp add: marshal_err_def json_Marshal_def)

lemma removeDuplicate_json_ok:
  "snd (removeDuplicateResolvedDependencies json_Marshal rds) = None"
  by (simp only: removeDuplicate_ok_iff json_Marshal_ok) simp

section \<open>Properties of the surviving entries\<close>

lemma survivors_subseq: "subseq (survivors key S rs) rs"
  by (induction rs arbitrary: S) auto

lemma survivors_set: "set (survivors key S rs) \<subseteq> set rs"
  using survivors_subseq [of key S rs] by (auto dest: list_emb_set)

lemma survivors_unprotected_fresh:
  "y \<in> set (survivors key S rs) \<Longrightarrow> \<not> protected_name y \<Longrightarrow> key y \<notin> S"
  by (induction rs arbitrary: S) (auto split: if_splits)

lemma survivors_later_protected:
  "i < j \<Longrightarrow> j < length (survivors key S rs) \<Longrightarrow>
   key (survivors key S rs ! i) = key (survivors key S rs ! j) \<Longrightarrow>
   protected_name (survivors key S rs ! j)"
proof (induction rs arbitrary: S i j)
  case Nil
  then show ?case by simp
next
  case (Cons r rs)
  show ?case
  proof (cases "key r \<in> S \<and> \<not> protected_name r")
    case True
    then show ?thesis using Cons.IH [of i j S] Cons.prems by simp
  next
    case False
    let ?tl = "survivors key (insert (key r) S) rs"
    have eq: "survivors key S (r # rs) = r # ?tl"
      using False by auto
    obtain j' where j: "j = Suc j'"
      using Cons.prems(1) by (cases j) auto
    have j'len: "j' < length ?tl"
      using Cons.prems(2) eq j by simp
    show ?thesis
    proof (cases i)
      case 0
      have "key (?tl ! j') = key r"
        using Cons.prems(3) eq j 0 by simp
      then have "key (?tl ! j') \<in> insert (key r) S"
        by simp
      then have "protected_name (?tl ! j')"
        using survivors_unprotected_fresh [of "?tl ! j'" key "insert (key r) S" rs] j'len
        by (metis nth_mem)
      then show ?thesis using eq j by simp
    next
      case (Suc i')
      have "protected_name (?tl ! j')"
        using Cons.IH [of i' j' "insert (key r) S"] Cons.prems eq j Suc j'len by simp
      then show ?thesis using eq j by simp
    qed
  qed
qed

lemma survivors_protected:
  "filter protected_name (survivors key S rs) = filter protected_name rs"
  by (induction rs arbitrary: S) auto

lemma survivors_idem: "survivors key S (survivors key S rs) = survivors key S rs"
  by (induction rs arbitrary: S) auto

lemma survivors_append:
  "survivors key S (xs @ ys) = survivors key S xs @ survivors key (S \<union> key ` set xs) ys"
proof (induction xs arbitrary: S)
  case Nil
  show ?case by simp
next
  case (Cons r xs)
  show ?case
  proof (cases "key r \<in> S \<and> \<not> protected_name r")
    case True
    then have "S \<union> key ` set (r # xs) = S \<union> key ` set xs"
      by auto
    then show ?thesis using True Cons.IH [of S] by simp
  next
    case False
    have "S \<union> key ` set (r # xs) = insert (key r) S \<union> key ` set xs"
      by auto
    then show ?thesis using False Cons.IH [of "insert (key r) S"] by auto
  qed
qed

lemma survivors_drop:
  assumes "key b \<in> S \<union> key ` set pre" and "\<not> protected_name b"
  shows "survivors key S (pre @ b # post) = survivors key S (pre @ post)"
  using assms by (simp add: survivors_append)

lemma survivors_first:
  assumes "protected_name a \<or> key a \<notin> S \<union> key ` set pre"
  shows "a \<in> set (survivors key S (pre @ a # post))"
  using assms by (auto simp: survivors_append)


lemma identity_key_fields:
  "URI a = URI b \<Longrightarrow> Digest a = Digest b \<Longrightarrow> identity_key marshal a = identity_key marshal b"
  by (simp add: identity_key_def rDep_of_def)

section \<open>The deduplicator\<close>

text \<open>
  C1. Whatever the input, the list returned by \<^verbatim>\<open>removeDuplicateResolvedDependencies\<close>
  never holds, at two different positions, two entries with the same URI and the same
  Digest unless one of the two is named \<^verbatim>\<open>task\<close> or \<^verbatim>\<open>pipeline\<close>; the same holds of
  two entries with the same identity key. The key that decides what a duplicate is
  depends on the URI and the Digest of an entry and not on its Name.
\<close>

theorem removeDuplicate_no_unprotected_duplicates:
  "(\<forall>i j. i < j \<and> j < length (fst (removeDuplicateResolvedDependencies marshal rds)) \<and>
      URI (fst (removeDuplicateResolvedDependencies marshal rds) ! i) =
      URI (fst (removeDuplicateResolvedDependencies marshal rds) ! j) \<and>
      Digest (fst (removeDuplicateResolvedDependencies marshal rds) ! i) =
      Digest (fst (removeDuplicateResolvedDependencies marshal rds) ! j) \<longrightarrow>
      protected_name (fst (removeDuplicateResolvedDependencies marshal rds) ! i) \<or>
      protected_name (fst (removeDuplicateResolvedDependencies marshal rds) ! j)) \<and>
   (\<forall>i j. i < j \<and> j < length (fst (removeDuplicateResolvedDependencies marshal rds)) \<and>
      identity_key marshal (fst (removeDuplicateResolvedDependencies marshal rds) ! i) =
      identity_key marshal (fst (removeDuplicateResolvedDependencies marshal rds) ! j) \<longrightarrow>
      protected_name (fst (removeDuplicateResolvedDependencies marshal rds) ! i) \<or>
      protected_name (fst (removeDuplicateResolvedDependencies marshal rds) ! j)) \<and>
   (\<forall>r n. identity_key marshal (r\<lparr>Name := n\<rparr>) = identity_key marshal r)"
proof -
  let ?out = "fst (removeDuplicateResolvedDependencies marshal rds)"
  have keys: "protected_name (?out ! j)"
    if h: "i < j" "j < length ?out" "identity_key marshal (?out ! i) = identity_key marshal (?out ! j)"
    for i j
  proof (cases "snd (removeDuplicateResolvedDependencies marshal rds) = None")
    case True
    have out: "?out = survivors (identity_key marshal) {} rds"
      using removeDuplicate_survivors [OF True] by simp
    show ?thesis
      using survivors_later_protected [of i j "identity_key marshal" "{}" rds] h out by simp
  next
    case False
    then have "?out = []" by (rule removeDuplicate_error)
    then show ?thesis using h by simp
  qed
  have fields: "protected_name (?out ! j)"
    if h: "i < j" "j < length ?out" "URI (?out ! i) = URI (?out ! j)"
      "Digest (?out ! i) = Digest (?out ! j)"
    for i j
  proof -
    have "identity_key marshal (?out ! i) = identity_key marshal (?out ! j)"
      using h(3,4) by (rule identity_key_fields)
    with h(1,2) show ?thesis by (rule keys)
  qed
  have name: "identity_key marshal (r\<lparr>Name := n\<rparr>) = identity_key marshal r" for r n
    by (simp add: identity_key_def rDep_of_def)
  show ?thesis
    using keys fields name by blast
qed

theorem removeDuplicate_no_unprotected_duplicates_witness:
  "fst (removeDuplicateResolvedDependencies json_Marshal [ex_plain, ex_input, ex_task, ex_other])
     = [ex_plain, ex_task, ex_other] \<and>
   (protected_name ex_plain \<or> protected_name ex_task) \<and>
   identity_key json_Marshal (ex_plain\<lparr>Name := ''task''\<rparr>) = identity_key json_Marshal ex_plain"
proof -
  let ?rds = "[ex_plain, ex_input, ex_task, ex_other]"
  have out: "fst (removeDuplicateResolvedDependencies json_Marshal ?rds) =
             [ex_plain, ex_task, ex_other]"
    by code_simp
  have "(0::nat) < 1 \<and> 1 < length [ex_plain, ex_task, ex_other] \<and>
        URI ([ex_plain, ex_task, ex_other] ! 0) = URI ([ex_plain, ex_task, ex_other] ! 1) \<and>
        Digest ([ex_plain, ex_task, ex_other] ! 0) = Digest ([ex_plain, ex_task, ex_other] ! 1)"
    by (simp add: ex_plain_def ex_task_def)
  then have "protected_name ([ex_plain, ex_task, ex_other] ! 0) \<or>
             protected_name ([ex_plain, ex_task, ex_other] ! 1)"
    using removeDuplicate_no_unprotected_duplicates [of json_Marshal ?rds, THEN conjunct1]
    by (simp only: out)
  moreover have "identity_key json_Marshal (ex_plain\<lparr>Name := ''task''\<rparr>) =
                 identity_key json_Marshal ex_plain"
    using removeDuplicate_no_unprotected_duplicates
            [of json_Marshal ?rds, THEN conjunct2, THEN conjunct2]
    by blast
  ultimately show ?thesis
    using out by simp
qed

text \<open>
  C2. When the call succeeds, every entry of the input named \<^verbatim>\<open>task\<close> or \<^verbatim>\<open>pipeline\<close>
  is in the output, however many entries with the same URI and Digest come before it:
  the protected entries of the output are those of the input, all of them and in the
  same order. In particular a protected entry that follows an unprotected entry with the
  same URI and Digest is emitted as well.
\<close>

theorem removeDuplicate_protected_retained:
  assumes "snd (removeDuplicateResolvedDependencies marshal rds) = None"
  shows "(\<forall>r\<in>set rds. protected_name r \<longrightarrow>
            r \<in> set (fst (removeDuplicateResolvedDependencies marshal rds))) \<and>
         filter protected_name (fst (removeDuplicateResolvedDependencies marshal rds)) =
           filter protected_name rds \<and>
         (\<forall>u p. rds = [u, p] \<and> \<not> protected_name u \<and> protected_name p \<and>
            URI u = URI p \<and> Digest u = Digest p \<longrightarrow>
            removeDuplicateResolvedDependencies marshal rds = ([u, p], None))"
proof -
  let ?out = "fst (removeDuplicateResolvedDependencies marshal rds)"
  have all: "removeDuplicateResolvedDependencies marshal rds =
             (survivors (identity_key marshal) {} rds, None)"
    using assms by (rule removeDuplicate_survivors)
  then have out: "?out = survivors (identity_key marshal) {} rds"
    by simp
  have f: "filter protected_name ?out = filter protected_name rds"
    by (simp add: out survivors_protected)
  have "\<forall>r\<in>set rds. protected_name r \<longrightarrow> r \<in> set ?out"
  proof (intro ballI impI)
    fix r assume "r \<in> set rds" and "protected_name r"
    then have "r \<in> set (filter protected_name rds)" by simp
    then have "r \<in> set (filter protected_name ?out)" by (simp only: f)
    then show "r \<in> set ?out" by simp
  qed
  moreover have "\<forall>u p. rds = [u, p] \<and> \<not> protected_name u \<and> protected_name p \<and>
      URI u = URI p \<and> Digest u = Digest p \<longrightarrow>
      removeDuplicateResolvedDependencies marshal rds = ([u, p], None)"
  proof (intro allI impI)
    fix u p
    assume h: "rds = [u, p] \<and> \<not> protected_name u \<and> protected_name p \<and>
      URI u = URI p \<and> Digest u = Digest p"
    then have "survivors (identity_key marshal) {} rds = [u, p]"
      by simp
    then show "removeDuplicateResolvedDependencies marshal rds = ([u, p], None)"
      by (simp only: all)
  qed
  ultimately show ?thesis using f by blast
qed

theorem removeDuplicate_protected_retained_witness:
  "ex_task \<in> set (fst (removeDuplicateResolvedDependencies json_Marshal
                        [ex_plain, ex_input, ex_task])) \<and>
   removeDuplicateResolvedDependencies json_Marshal [ex_plain, ex_task] =
     ([ex_plain, ex_task], None)"
proof -
  have ok1: "snd (removeDuplicateResolvedDependencies json_Marshal
                    [ex_plain, ex_input, ex_task]) = None"
    by code_simp
  have ok2: "snd (removeDuplicateResolvedDependencies json_Marshal [ex_plain, ex_task]) = None"
    by code_simp
  have p: "protected_name ex_task" "\<not> protected_name ex_plain"
    "URI ex_plain = URI ex_task" "Digest ex_plain = Digest ex_task"
    by (simp_all add: protected_name_def ex_task_def ex_plain_def taskConfigName_def
        pipelineConfigName_def)
  show ?thesis
    using removeDuplicate_protected_retained [OF ok1] removeDuplicate_protected_retained [OF ok2] p
    by simp
qed

text \<open>
  C3. Take two entries of the input with the same URI and the same Digest, the later one
  not named \<^verbatim>\<open>task\<close> or \<^verbatim>\<open>pipeline\<close>. When the call succeeds the later one is dropped:
  the result is what the input without it gives. The earlier one is in the output when it
  is protected or the first entry of its identity key; so of two such entries alone only
  the first is returned. The list \<^verbatim>\<open>[{task, a, sha256:x}, {a, sha256:x}]\<close> gives its first
  entry alone.
\<close>

theorem removeDuplicate_later_unprotected_dropped:
  "(snd (removeDuplicateResolvedDependencies marshal (pre @ a # mid @ b # post)) = None \<and>
    URI a = URI b \<and> Digest a = Digest b \<and> \<not> protected_name b \<longrightarrow>
      removeDuplicateResolvedDependencies marshal (pre @ a # mid @ b # post) =
        removeDuplicateResolvedDependencies marshal (pre @ a # mid @ post) \<and>
      (protected_name a \<or> (\<forall>p\<in>set pre. identity_key marshal p \<noteq> identity_key marshal a) \<longrightarrow>
         a \<in> set (fst (removeDuplicateResolvedDependencies marshal
                          (pre @ a # mid @ b # post)))) \<and>
      (pre = [] \<and> mid = [] \<and> post = [] \<longrightarrow>
         removeDuplicateResolvedDependencies marshal [a, b] = ([a], None))) \<and>
   removeDuplicateResolvedDependencies json_Marshal
     [\<lparr>Name = ''task'', URI = ''a'', Digest = [(''sha256'', ''x'')]\<rparr>,
      \<lparr>Name = [], URI = ''a'', Digest = [(''sha256'', ''x'')]\<rparr>] =
     ([\<lparr>Name = ''task'', URI = ''a'', Digest = [(''sha256'', ''x'')]\<rparr>], None)"
proof (rule conjI)
  show "removeDuplicateResolvedDependencies json_Marshal
     [\<lparr>Name = ''task'', URI = ''a'', Digest = [(''sha256'', ''x'')]\<rparr>,
      \<lparr>Name = [], URI = ''a'', Digest = [(''sha256'', ''x'')]\<rparr>] =
     ([\<lparr>Name = ''task'', URI = ''a'', Digest = [(''sha256'', ''x'')]\<rparr>], None)"
    by code_simp
next
  let ?key = "identity_key marshal"
  let ?with = "pre @ a # mid @ b # post"
  let ?without = "pre @ a # mid @ post"
  show "snd (removeDuplicateResolvedDependencies marshal ?with) = None \<and>
    URI a = URI b \<and> Digest a = Digest b \<and> \<not> protected_name b \<longrightarrow>
      removeDuplicateResolvedDependencies marshal ?with =
        removeDuplicateResolvedDependencies marshal ?without \<and>
      (protected_name a \<or> (\<forall>p\<in>set pre. ?key p \<noteq> ?key a) \<longrightarrow>
         a \<in> set (fst (removeDuplicateResolvedDependencies marshal ?with))) \<and>
      (pre = [] \<and> mid = [] \<and> post = [] \<longrightarrow>
         removeDuplicateResolvedDependencies marshal [a, b] = ([a], None))"
  proof (rule impI)
    assume h: "snd (removeDuplicateResolvedDependencies marshal ?with) = None \<and>
      URI a = URI b \<and> Digest a = Digest b \<and> \<not> protected_name b"
    then have okw: "snd (removeDuplicateResolvedDependencies marshal ?with) = None"
      by simp
    then have ok: "\<forall>r\<in>set ?with. marshal_err marshal r = None"
      by (simp only: removeDuplicate_ok_iff)
    then have "\<forall>r\<in>set ?without. marshal_err marshal r = None"
      by simp
    then have ok': "snd (removeDuplicateResolvedDependencies marshal ?without) = None"
      by (simp only: removeDuplicate_ok_iff)
    have key: "?key b = ?key a"
      using h by (intro identity_key_fields) simp_all
    have "survivors ?key {} ((pre @ a # mid) @ b # post) = survivors ?key {} ((pre @ a # mid) @ post)"
      using key h by (intro survivors_drop) simp_all
    then have drop: "survivors ?key {} ?with = survivors ?key {} ?without"
      by simp
    have 1: "removeDuplicateResolvedDependencies marshal ?with =
             removeDuplicateResolvedDependencies marshal ?without"
      using removeDuplicate_survivors [OF okw] removeDuplicate_survivors [OF ok'] drop
      by simp
    have 2: "protected_name a \<or> (\<forall>p\<in>set pre. ?key p \<noteq> ?key a) \<longrightarrow>
             a \<in> set (fst (removeDuplicateResolvedDependencies marshal ?with))"
    proof
      assume "protected_name a \<or> (\<forall>p\<in>set pre. ?key p \<noteq> ?key a)"
      then have "protected_name a \<or> ?key a \<notin> {} \<union> ?key ` set pre"
        by auto
      then have "a \<in> set (survivors ?key {} (pre @ a # (mid @ b # post)))"
        by (rule survivors_first)
      then show "a \<in> set (fst (removeDuplicateResolvedDependencies marshal ?with))"
        using removeDuplicate_survivors [OF okw] by simp
    qed
    have 3: "pre = [] \<and> mid = [] \<and> post = [] \<longrightarrow>
             removeDuplicateResolvedDependencies marshal [a, b] = ([a], None)"
    proof
      assume e: "pre = [] \<and> mid = [] \<and> post = []"
      have "survivors ?key {} [a, b] = [a]"
        using key h by simp
      then show "removeDuplicateResolvedDependencies marshal [a, b] = ([a], None)"
        using removeDuplicate_survivors [OF okw] e by simp
    qed
    show "removeDuplicateResolvedDependencies marshal ?with =
          removeDuplicateResolvedDependencies marshal ?without \<and>
        (protected_name a \<or> (\<forall>p\<in>set pre. ?key p \<noteq> ?key a) \<longrightarrow>
           a \<in> set (fst (removeDuplicateResolvedDependencies marshal ?with))) \<and>
        (pre = [] \<and> mid = [] \<and> post = [] \<longrightarrow>
           removeDuplicateResolvedDependencies marshal [a, b] = ([a], None))"
      using 1 2 3 by blast
  qed
qed

theorem removeDuplicate_later_unprotected_dropped_witness:
  "removeDuplicateResolvedDependencies json_Marshal
     ([ex_other] @ ex_plain # [ex_task] @ ex_input # [ex_other]) =
   removeDuplicateResolvedDependencies json_Marshal
     ([ex_other] @ ex_plain # [ex_task] @ [ex_other]) \<and>
   ex_plain \<in> set (fst (removeDuplicateResolvedDependencies json_Marshal
                          ([ex_other] @ ex_plain # [ex_task] @ ex_input # [ex_other])))"
proof -
  have ok: "snd (removeDuplicateResolvedDependencies json_Marshal
                   ([ex_other] @ ex_plain # [ex_task] @ ex_input # [ex_other])) = None"
    by code_simp
  have f: "URI ex_plain = URI ex_input \<and> Digest ex_plain = Digest ex_input \<and>
           \<not> protected_name ex_input"
    by (simp add: ex_plain_def ex_input_def protected_name_def taskConfigName_def
        pipelineConfigName_def)
  have first: "\<forall>p\<in>set [ex_other]. identity_key json_Marshal p \<noteq> identity_key json_Marshal ex_plain"
    by code_simp
  show ?thesis
    using removeDuplicate_later_unprotected_dropped
            [of json_Marshal "[ex_other]" ex_plain "[ex_task]" ex_input "[ex_other]",
             THEN conjunct1]
      ok f first
    by blast
qed




text \<open>
  C5. The deduplicator is idempotent: applied to the list that a successful call
  returned, it returns that list again, without error.
\<close>

theorem removeDuplicate_idempotent:
  assumes "snd (removeDuplicateResolvedDependencies marshal rds) = None"
  shows "removeDuplicateResolvedDependencies marshal
           (fst (removeDuplicateResolvedDependencies marshal rds)) =
         removeDuplicateResolvedDependencies marshal rds"
proof -
  let ?key = "identity_key marshal"
  let ?out = "survivors ?key {} rds"
  have first: "removeDuplicateResolvedDependencies marshal rds = (?out, None)"
    using assms by (rule removeDuplicate_survivors)
  have "\<forall>r\<in>set rds. marshal_err marshal r = None"
    using assms by (simp only: removeDuplicate_ok_iff)
  then have "\<forall>r\<in>set ?out. marshal_err marshal r = None"
    using survivors_set [of ?key "{}" rds] by blast
  then have "snd (removeDuplicateResolvedDependencies marshal ?out) = None"
    by (simp only: removeDuplicate_ok_iff)
  then have "removeDuplicateResolvedDependencies marshal ?out = (survivors ?key {} ?out, None)"
    by (rule removeDuplicate_survivors)
  then show ?thesis
    by (simp add: first survivors_idem)
qed

theorem removeDuplicate_idempotent_witness:
  "removeDuplicateResolvedDependencies json_Marshal [ex_plain, ex_task, ex_other] =
   removeDuplicateResolvedDependencies json_Marshal [ex_plain, ex_input, ex_task, ex_other, ex_plain]"
proof -
  have ok: "snd (removeDuplicateResolvedDependencies json_Marshal
                   [ex_plain, ex_input, ex_task, ex_other, ex_plain]) = None"
    by code_simp
  have out: "fst (removeDuplicateResolvedDependencies json_Marshal
                    [ex_plain, ex_input, ex_task, ex_other, ex_plain]) =
             [ex_plain, ex_task, ex_other]"
    by code_simp
  show ?thesis
    using removeDuplicate_idempotent [OF ok] by (simp only: out)
qed

section \<open>The resolvers\<close>

lemma TaskRun_error_nil:
  "snd (TaskRun marshal m tro) \<noteq> None \<Longrightarrow> fst (TaskRun marshal m tro) = []"
  by (auto simp: TaskRun_def Let_def split: prod.splits if_splits)

lemma fromPipelineTask_loop_error_nil:
  "snd (fromPipelineTask_loop m pro rds ts) \<noteq> None \<Longrightarrow>
   fst (fromPipelineTask_loop m pro rds ts) = []"
  by (induction ts arbitrary: rds)
     (auto simp: Let_def split: option.splits prod.splits if_splits)

lemma PipelineRun_error_nil:
  "snd (PipelineRun marshal m pro slsaconfig) \<noteq> None \<Longrightarrow>
   fst (PipelineRun marshal m pro slsaconfig) = []"
  by (auto simp: PipelineRun_def Let_def split: prod.splits if_splits)

text \<open>A pipeline task without error leads to the next one, with some list.\<close>

lemma fromPipelineTask_loop_step:
  "pipelineTask_error m pro t = None \<Longrightarrow>
   \<exists>rds'. fromPipelineTask_loop m pro rds (t # rest) = fromPipelineTask_loop m pro rds' rest"
  by (auto simp: pipelineTask_error_def Let_def split: option.splits prod.splits if_splits)

lemma fromPipelineTask_loop_fail:
  "pipelineTask_error m pro t = Some e \<Longrightarrow>
   fromPipelineTask_loop m pro rds (t # rest) = ([], Some e)"
  by (auto simp: pipelineTask_error_def Let_def split: option.splits prod.splits if_splits)

lemma fromPipelineTask_loop_first_error:
  "\<forall>s\<in>set pre. pipelineTask_error m pro s = None \<Longrightarrow> pipelineTask_error m pro t = Some e \<Longrightarrow>
   fromPipelineTask_loop m pro rds (pre @ t # post) = ([], Some e)"
proof (induction pre arbitrary: rds)
  case Nil
  then show ?case using fromPipelineTask_loop_fail [of m pro t e rds post] by simp
next
  case (Cons s pre)
  obtain rds' where "fromPipelineTask_loop m pro rds (s # pre @ t # post) =
                     fromPipelineTask_loop m pro rds' (pre @ t # post)"
    using fromPipelineTask_loop_step [of m pro s rds "pre @ t # post"] Cons.prems(1) by auto
  then show ?case using Cons.IH [of rds'] Cons.prems by simp
qed

text \<open>A pipeline task that did not execute leaves the loop where it was.\<close>

lemma fromPipelineTask_loop_skip:
  assumes "GetTaskRunFromTask pro (pt_Name t) = None \<or>
           (\<exists>tr. GetTaskRunFromTask pro (pt_Name t) = Some tr \<and>
                 tr_CompletionTime (tr_Status tr) = None)"
  shows "fromPipelineTask_loop m pro rds (t # rest) = fromPipelineTask_loop m pro rds rest"
  using assms by auto

lemma fromPipelineTask_loop_skip_middle:
  assumes "GetTaskRunFromTask pro (pt_Name t) = None \<or>
           (\<exists>tr. GetTaskRunFromTask pro (pt_Name t) = Some tr \<and>
                 tr_CompletionTime (tr_Status tr) = None)"
  shows "fromPipelineTask_loop m pro rds (pre @ t # post) =
         fromPipelineTask_loop m pro rds (pre @ post)"
proof (induction pre arbitrary: rds)
  case Nil
  show ?case using fromPipelineTask_loop_skip [OF assms] by simp
next
  case (Cons s pre)
  show ?case
    by (simp add: Cons.IH Let_def split: option.splits prod.splits)
qed

text \<open>
  C6. The TaskRun resolver, on a status whose provenance refers to
  \<^verbatim>\<open>{git.example/repo, sha1:abc}\<close>, whose step images give the one material
  \<^verbatim>\<open>{reg/img, sha256:d1}\<close>, whose parameters and results give the one material
  \<^verbatim>\<open>{param/foo, sha256:d2}\<close>, and with no sidecar and no resource material, returns
  three descriptors and no error: the reference named \<^verbatim>\<open>task\<close>, then the step image
  without a name, then the input named \<^verbatim>\<open>inputs/result\<close>.
\<close>

theorem TaskRun_example:
  assumes "tr_Provenance (tr_Status tro) = Some p"
    and "RefSource p = Some \<lparr>ref_URI = ''git.example/repo'', ref_Digest = [(''sha1'', ''abc'')]\<rparr>"
    and "FromStepImages m (tr_Steps (tr_Status tro)) =
           ([\<lparr>mat_URI = ''reg/img'', mat_Digest = [(''sha256'', ''d1'')]\<rparr>], None)"
    and "FromSidecarImages m (tr_Sidecars (tr_Status tro)) = ([], None)"
    and "FromTaskParamsAndResults m tro =
           [\<lparr>mat_URI = ''param/foo'', mat_Digest = [(''sha256'', ''d2'')]\<rparr>]"
    and "FromTaskResources m tro = []"
  shows "TaskRun json_Marshal m tro =
           ([\<lparr>Name = ''task'', URI = ''git.example/repo'', Digest = [(''sha1'', ''abc'')]\<rparr>,
             \<lparr>Name = [], URI = ''reg/img'', Digest = [(''sha256'', ''d1'')]\<rparr>,
             \<lparr>Name = ''inputs/result'', URI = ''param/foo'', Digest = [(''sha256'', ''d2'')]\<rparr>],
            None)"
proof -
  let ?all = "[\<lparr>Name = ''task'', URI = ''git.example/repo'', Digest = [(''sha1'', ''abc'')]\<rparr>,
               \<lparr>Name = [], URI = ''reg/img'', Digest = [(''sha256'', ''d1'')]\<rparr>,
               \<lparr>Name = ''inputs/result'', URI = ''param/foo'', Digest = [(''sha256'', ''d2'')]\<rparr>]"
  have dedup: "removeDuplicateResolvedDependencies json_Marshal ?all = (?all, None)"
    by code_simp
  have "TaskRun json_Marshal m tro = (case removeDuplicateResolvedDependencies json_Marshal ?all of
          (resolvedDependencies, err) \<Rightarrow>
            if err \<noteq> None then ([], err) else (resolvedDependencies, None))"
    using assms
    by (simp add: TaskRun_def configDescriptor_def convertMaterialsToResolvedDependencies_def
        taskConfigName_def inputResultName_def pipelineResourceName_def)
  then show ?thesis
    by (simp only: dedup) simp
qed

theorem TaskRun_example_witness:
  "TaskRun json_Marshal ex_material ex_tro =
     ([\<lparr>Name = ''task'', URI = ''git.example/repo'', Digest = [(''sha1'', ''abc'')]\<rparr>,
       \<lparr>Name = [], URI = ''reg/img'', Digest = [(''sha256'', ''d1'')]\<rparr>,
       \<lparr>Name = ''inputs/result'', URI = ''param/foo'', Digest = [(''sha256'', ''d2'')]\<rparr>],
      None)"
proof (rule TaskRun_example)
  show "tr_Provenance (tr_Status ex_tro) = Some \<lparr>RefSource = Some ex_ref\<rparr>"
    by (simp add: ex_tro_def)
  show "RefSource \<lparr>RefSource = Some ex_ref\<rparr> =
        Some \<lparr>ref_URI = ''git.example/repo'', ref_Digest = [(''sha1'', ''abc'')]\<rparr>"
    by (simp add: ex_ref_def)
  show "FromStepImages ex_material (tr_Steps (tr_Status ex_tro)) =
        ([\<lparr>mat_URI = ''reg/img'', mat_Digest = [(''sha256'', ''d1'')]\<rparr>], None)"
    by (simp add: ex_material_def ex_tro_def ex_step_mat_def)
  show "FromSidecarImages ex_material (tr_Sidecars (tr_Status ex_tro)) = ([], None)"
    by (simp add: ex_material_def ex_tro_def)
  show "FromTaskParamsAndResults ex_material ex_tro =
        [\<lparr>mat_URI = ''param/foo'', mat_Digest = [(''sha256'', ''d2'')]\<rparr>]"
    by (simp add: ex_material_def ex_input_mat_def)
  show "FromTaskResources ex_material ex_tro = []"
    by (simp add: ex_material_def)
qed

text \<open>
  C7. When the extraction of the step images fails, or that of the sidecar images after
  the step images were extracted, \<^verbatim>\<open>TaskRun\<close> returns that error and the empty list. When
  the extraction fails in a pipeline task, the tasks before it raising no error,
  \<^verbatim>\<open>PipelineRun\<close> returns that error and the empty list. Neither resolver ever returns a
  non-empty list together with an error.
\<close>

theorem extraction_error_no_partial_list:
  "(\<forall>ms e. FromStepImages m (tr_Steps (tr_Status tro)) = (ms, Some e) \<longrightarrow>
      TaskRun marshal m tro = ([], Some e)) \<and>
   (\<forall>ms ms' e. FromStepImages m (tr_Steps (tr_Status tro)) = (ms, None) \<and>
      FromSidecarImages m (tr_Sidecars (tr_Status tro)) = (ms', Some e) \<longrightarrow>
      TaskRun marshal m tro = ([], Some e)) \<and>
   (\<forall>ps pre t post e. pr_PipelineSpec (pr_Status pro) = Some ps \<and>
      Tasks ps @ Finally ps = pre @ t # post \<and>
      (\<forall>s\<in>set pre. pipelineTask_error m pro s = None) \<and>
      pipelineTask_error m pro t = Some e \<longrightarrow>
      PipelineRun marshal m pro slsaconfig = ([], Some e)) \<and>
   (\<forall>ps. pr_PipelineSpec (pr_Status pro) = Some ps \<and>
      (\<exists>t\<in>set (Tasks ps @ Finally ps). pipelineTask_error m pro t \<noteq> None) \<longrightarrow>
      (\<exists>t\<in>set (Tasks ps @ Finally ps). pipelineTask_error m pro t \<noteq> None \<and>
         PipelineRun marshal m pro slsaconfig = ([], pipelineTask_error m pro t))) \<and>
   (snd (TaskRun marshal m tro) \<noteq> None \<longrightarrow> fst (TaskRun marshal m tro) = []) \<and>
   (snd (PipelineRun marshal m pro slsaconfig) \<noteq> None \<longrightarrow>
      fst (PipelineRun marshal m pro slsaconfig) = [])"
proof (intro conjI allI impI)
  fix ps
  assume h: "pr_PipelineSpec (pr_Status pro) = Some ps \<and>
      (\<exists>t\<in>set (Tasks ps @ Finally ps). pipelineTask_error m pro t \<noteq> None)"
  then obtain pre t post where split: "Tasks ps @ Finally ps = pre @ t # post"
    and t: "pipelineTask_error m pro t \<noteq> None"
    and pre: "\<forall>s\<in>set pre. \<not> pipelineTask_error m pro s \<noteq> None"
    using split_list_first_prop [of "Tasks ps @ Finally ps" "\<lambda>t. pipelineTask_error m pro t \<noteq> None"]
    by blast
  from t obtain e where e: "pipelineTask_error m pro t = Some e"
    by auto
  have "fromPipelineTask_loop m pro [] (pre @ t # post) = ([], Some e)"
    using pre e by (intro fromPipelineTask_loop_first_error) simp_all
  then have "fromPipelineTask m pro = ([], Some e)"
    using h split by (simp add: fromPipelineTask_def)
  then have "PipelineRun marshal m pro slsaconfig = ([], pipelineTask_error m pro t)"
    using e by (simp add: PipelineRun_def)
  moreover have "t \<in> set (Tasks ps @ Finally ps)"
    by (simp only: split) simp
  ultimately show "\<exists>t\<in>set (Tasks ps @ Finally ps). pipelineTask_error m pro t \<noteq> None \<and>
         PipelineRun marshal m pro slsaconfig = ([], pipelineTask_error m pro t)"
    using t by blast
next
  fix ms e
  assume "FromStepImages m (tr_Steps (tr_Status tro)) = (ms, Some e)"
  then show "TaskRun marshal m tro = ([], Some e)"
    by (simp add: TaskRun_def)
next
  fix ms ms' e
  assume "FromStepImages m (tr_Steps (tr_Status tro)) = (ms, None) \<and>
          FromSidecarImages m (tr_Sidecars (tr_Status tro)) = (ms', Some e)"
  then show "TaskRun marshal m tro = ([], Some e)"
    by (simp add: TaskRun_def)
next
  fix ps pre t post e
  assume h: "pr_PipelineSpec (pr_Status pro) = Some ps \<and>
      Tasks ps @ Finally ps = pre @ t # post \<and>
      (\<forall>s\<in>set pre. pipelineTask_error m pro s = None) \<and>
      pipelineTask_error m pro t = Some e"
  then have "fromPipelineTask_loop m pro [] (pre @ t # post) = ([], Some e)"
    by (intro fromPipelineTask_loop_first_error) simp_all
  then have "fromPipelineTask m pro = ([], Some e)"
    using h by (simp add: fromPipelineTask_def)
  then show "PipelineRun marshal m pro slsaconfig = ([], Some e)"
    by (simp add: PipelineRun_def)
next
  assume "snd (TaskRun marshal m tro) \<noteq> None"
  then show "fst (TaskRun marshal m tro) = []"
    by (rule TaskRun_error_nil)
next
  assume "snd (PipelineRun marshal m pro slsaconfig) \<noteq> None"
  then show "fst (PipelineRun marshal m pro slsaconfig) = []"
    by (rule PipelineRun_error_nil)
qed

theorem extraction_error_no_partial_list_witness:
  "TaskRun json_Marshal ex_material ex_tro_bad_step = ([], Some (Error ''bad step image'')) \<and>
   TaskRun json_Marshal ex_material ex_tro_bad_sidecar = ([], Some (Error ''bad sidecar image'')) \<and>
   PipelineRun json_Marshal ex_material ex_pro_bad ex_cfg = ([], Some (Error ''bad sidecar image''))"
proof -
  have 1: "FromStepImages ex_material (tr_Steps (tr_Status ex_tro_bad_step)) =
           ([], Some (Error ''bad step image''))"
    by (simp add: ex_material_def ex_tro_bad_step_def)
  have 2: "FromStepImages ex_material (tr_Steps (tr_Status ex_tro_bad_sidecar)) =
             ([ex_step_mat], None) \<and>
           FromSidecarImages ex_material (tr_Sidecars (tr_Status ex_tro_bad_sidecar)) =
             ([], Some (Error ''bad sidecar image''))"
    by (simp add: ex_material_def ex_tro_bad_sidecar_def)
  have 3: "pr_PipelineSpec (pr_Status ex_pro_bad) =
             Some \<lparr>Tasks = [\<lparr>pt_Name = ''A''\<rparr>, \<lparr>pt_Name = ''B''\<rparr>],
                   Finally = [\<lparr>pt_Name = ''C''\<rparr>]\<rparr> \<and>
           Tasks \<lparr>Tasks = [\<lparr>pt_Name = ''A''\<rparr>, \<lparr>pt_Name = ''B''\<rparr>],
                  Finally = [\<lparr>pt_Name = ''C''\<rparr>]\<rparr> @
           Finally \<lparr>Tasks = [\<lparr>pt_Name = ''A''\<rparr>, \<lparr>pt_Name = ''B''\<rparr>],
                    Finally = [\<lparr>pt_Name = ''C''\<rparr>]\<rparr> =
             [\<lparr>pt_Name = ''A''\<rparr>] @ \<lparr>pt_Name = ''B''\<rparr> # [\<lparr>pt_Name = ''C''\<rparr>] \<and>
           (\<forall>s\<in>set [\<lparr>pt_Name = ''A''\<rparr>]. pipelineTask_error ex_material ex_pro_bad s = None) \<and>
           pipelineTask_error ex_material ex_pro_bad \<lparr>pt_Name = ''B''\<rparr> =
             Some (Error ''bad sidecar image'')"
    by (simp add: ex_pro_bad_def pipelineTask_error_def ex_material_def ex_tro_def
        ex_tro_bad_sidecar_def)
  note a = extraction_error_no_partial_list
             [of ex_material ex_tro_bad_step json_Marshal ex_pro_bad ex_cfg]
  note b = extraction_error_no_partial_list
             [of ex_material ex_tro_bad_sidecar json_Marshal ex_pro_bad ex_cfg]
  have "TaskRun json_Marshal ex_material ex_tro_bad_step = ([], Some (Error ''bad step image''))"
    using a [THEN conjunct1, rule_format, OF 1] .
  moreover have "TaskRun json_Marshal ex_material ex_tro_bad_sidecar =
                 ([], Some (Error ''bad sidecar image''))"
    using b [THEN conjunct2, THEN conjunct1, rule_format, OF 2] .
  moreover have "PipelineRun json_Marshal ex_material ex_pro_bad ex_cfg =
                 ([], Some (Error ''bad sidecar image''))"
    using b [THEN conjunct2, THEN conjunct2, THEN conjunct1, rule_format, OF 3] .
  ultimately show ?thesis by simp
qed

text \<open>
  C8. A pipeline task for which \<^verbatim>\<open>GetTaskRunFromTask\<close> returns nothing, or whose TaskRun
  has no completion time, adds no descriptor and raises no error: the loop of
  \<^verbatim>\<open>fromPipelineTask\<close> goes on with the tasks after it in the state it was in, and the
  result is the one that the other tasks alone give.
\<close>

theorem skipped_pipeline_task_contributes_nothing:
  assumes "GetTaskRunFromTask pro (pt_Name t) = None \<or>
           (\<exists>tr. GetTaskRunFromTask pro (pt_Name t) = Some tr \<and>
                 tr_CompletionTime (tr_Status tr) = None)"
  shows "fromPipelineTask_loop m pro rds (t # rest) = fromPipelineTask_loop m pro rds rest \<and>
         fromPipelineTask_loop m pro rds [t] = (rds, None) \<and>
         fromPipelineTask_loop m pro rds (pre @ t # post) =
           fromPipelineTask_loop m pro rds (pre @ post) \<and>
         (\<forall>ps. pr_PipelineSpec (pr_Status pro) = Some ps \<and>
               Tasks ps @ Finally ps = pre @ t # post \<longrightarrow>
               fromPipelineTask m pro = fromPipelineTask_loop m pro [] (pre @ post))"
proof -
  have 1: "fromPipelineTask_loop m pro rds (t # rest) = fromPipelineTask_loop m pro rds rest"
    for rest
    using assms by (rule fromPipelineTask_loop_skip)
  have 2: "fromPipelineTask_loop m pro rds [t] = (rds, None)"
    using 1 [of "[]"] by simp
  have 3: "fromPipelineTask_loop m pro rds (pre @ t # post) =
           fromPipelineTask_loop m pro rds (pre @ post)" for rds
    using assms by (rule fromPipelineTask_loop_skip_middle)
  have 4: "\<forall>ps. pr_PipelineSpec (pr_Status pro) = Some ps \<and>
               Tasks ps @ Finally ps = pre @ t # post \<longrightarrow>
               fromPipelineTask m pro = fromPipelineTask_loop m pro [] (pre @ post)"
    using 3 [of "[]"] by (simp add: fromPipelineTask_def)
  show ?thesis
    using 1 2 3 4 by blast
qed

theorem skipped_pipeline_task_contributes_nothing_witness:
  "fromPipelineTask ex_material ex_pro =
     fromPipelineTask_loop ex_material ex_pro [] [\<lparr>pt_Name = ''A''\<rparr>, \<lparr>pt_Name = ''C''\<rparr>] \<and>
   fromPipelineTask_loop ex_material ex_pro [ex_plain] [\<lparr>pt_Name = ''C''\<rparr>] = ([ex_plain], None)"
proof -
  have b: "GetTaskRunFromTask ex_pro (pt_Name \<lparr>pt_Name = ''B''\<rparr>) = None \<or>
           (\<exists>tr. GetTaskRunFromTask ex_pro (pt_Name \<lparr>pt_Name = ''B''\<rparr>) = Some tr \<and>
                 tr_CompletionTime (tr_Status tr) = None)"
    by (simp add: ex_pro_def)
  have c: "GetTaskRunFromTask ex_pro (pt_Name \<lparr>pt_Name = ''C''\<rparr>) = None \<or>
           (\<exists>tr. GetTaskRunFromTask ex_pro (pt_Name \<lparr>pt_Name = ''C''\<rparr>) = Some tr \<and>
                 tr_CompletionTime (tr_Status tr) = None)"
    by (simp add: ex_pro_def ex_tro_running_def)
  have spec: "pr_PipelineSpec (pr_Status ex_pro) =
                Some \<lparr>Tasks = [\<lparr>pt_Name = ''A''\<rparr>, \<lparr>pt_Name = ''B''\<rparr>],
                      Finally = [\<lparr>pt_Name = ''C''\<rparr>]\<rparr> \<and>
              Tasks \<lparr>Tasks = [\<lparr>pt_Name = ''A''\<rparr>, \<lparr>pt_Name = ''B''\<rparr>],
                     Finally = [\<lparr>pt_Name = ''C''\<rparr>]\<rparr> @
              Finally \<lparr>Tasks = [\<lparr>pt_Name = ''A''\<rparr>, \<lparr>pt_Name = ''B''\<rparr>],
                       Finally = [\<lparr>pt_Name = ''C''\<rparr>]\<rparr> =
                [\<lparr>pt_Name = ''A''\<rparr>] @ \<lparr>pt_Name = ''B''\<rparr> # [\<lparr>pt_Name = ''C''\<rparr>]"
    by (simp add: ex_pro_def)
  have "fromPipelineTask ex_material ex_pro =
        fromPipelineTask_loop ex_material ex_pro [] ([\<lparr>pt_Name = ''A''\<rparr>] @ [\<lparr>pt_Name = ''C''\<rparr>])"
    using skipped_pipeline_task_contributes_nothing
            [OF b, of ex_material "[]" "[]" "[\<lparr>pt_Name = ''A''\<rparr>]" "[\<lparr>pt_Name = ''C''\<rparr>]"] spec
    by blast
  moreover have "fromPipelineTask_loop ex_material ex_pro [ex_plain] [\<lparr>pt_Name = ''C''\<rparr>] =
                 ([ex_plain], None)"
    using skipped_pipeline_task_contributes_nothing [OF c, of ex_material "[ex_plain]"]
    by blast
  ultimately show ?thesis by simp
qed

text \<open>
  C10. When the status of a PipelineRun has no pipeline spec, \<^verbatim>\<open>fromPipelineTask\<close>
  returns no descriptor and no error without looking at any task, and \<^verbatim>\<open>PipelineRun\<close>
  returns what the deduplicator gives on the \<^verbatim>\<open>pipeline\<close> descriptor of the provenance
  (when there is one) followed by the descriptors of the parameters and results, named
  \<^verbatim>\<open>inputs/result\<close>; with the JSON serializer this is never an error.
\<close>

theorem PipelineRun_without_spec:
  assumes "pr_PipelineSpec (pr_Status pro) = None"
  shows "fromPipelineTask m pro = ([], None) \<and>
         PipelineRun marshal m pro slsaconfig =
           removeDuplicateResolvedDependencies marshal
             (configDescriptor pipelineConfigName (pr_Provenance (pr_Status pro)) @
              convertMaterialsToResolvedDependencies
                (FromPipelineParamsAndResults m pro slsaconfig) inputResultName) \<and>
         snd (PipelineRun json_Marshal m pro slsaconfig) = None"
proof -
  let ?rds = "configDescriptor pipelineConfigName (pr_Provenance (pr_Status pro)) @
              convertMaterialsToResolvedDependencies
                (FromPipelineParamsAndResults m pro slsaconfig) inputResultName"
  have none: "fromPipelineTask m pro = ([], None)"
    using assms by (simp add: fromPipelineTask_def)
  have run: "PipelineRun marshal m pro slsaconfig =
             removeDuplicateResolvedDependencies marshal ?rds" for marshal
  proof (cases "removeDuplicateResolvedDependencies marshal ?rds")
    case (Pair out err)
    then have "err \<noteq> None \<Longrightarrow> out = []"
      using removeDuplicate_error [of marshal ?rds] by simp
    then show ?thesis
      using Pair none by (auto simp: PipelineRun_def)
  qed
  have "snd (removeDuplicateResolvedDependencies json_Marshal ?rds) = None"
    by (simp only: removeDuplicate_ok_iff json_Marshal_ok) simp
  then have "snd (PipelineRun json_Marshal m pro slsaconfig) = None"
    by (simp only: run)
  then show ?thesis
    using none run by simp
qed

theorem PipelineRun_without_spec_witness:
  "PipelineRun json_Marshal ex_material ex_pro_nospec ex_cfg =
     ([\<lparr>Name = ''pipeline'', URI = ''git.example/repo'', Digest = [(''sha1'', ''abc'')]\<rparr>,
       \<lparr>Name = ''inputs/result'', URI = ''param/foo'', Digest = [(''sha256'', ''d2'')]\<rparr>],
      None)"
proof -
  have spec: "pr_PipelineSpec (pr_Status ex_pro_nospec) = None"
    by (simp add: ex_pro_nospec_def)
  have "removeDuplicateResolvedDependencies json_Marshal
          (configDescriptor pipelineConfigName (pr_Provenance (pr_Status ex_pro_nospec)) @
           convertMaterialsToResolvedDependencies
             (FromPipelineParamsAndResults ex_material ex_pro_nospec ex_cfg) inputResultName) =
        ([\<lparr>Name = ''pipeline'', URI = ''git.example/repo'', Digest = [(''sha1'', ''abc'')]\<rparr>,
          \<lparr>Name = ''inputs/result'', URI = ''param/foo'', Digest = [(''sha256'', ''d2'')]\<rparr>],
         None)"
    by code_simp
  then show ?thesis
    using PipelineRun_without_spec [OF spec, of ex_material json_Marshal ex_cfg] by simp
qed

section \<open>The serialization of the digest\<close>

lemma sort_key_fst_unique:
  assumes "distinct (map fst xs)" and "distinct (map fst ys)" and "set xs = set ys"
  shows "sort_key fst xs = sort_key fst ys"
proof -
  let ?a = "sort_key fst xs" and ?b = "sort_key fst ys"
  have "sorted (map fst ?a)" "sorted (map fst ?b)"
    by (rule sorted_sort_key)+
  moreover have "distinct (map fst ?a)" "distinct (map fst ?b)"
    using assms(1,2) by (simp_all add: distinct_map)
  moreover have "set (map fst ?a) = set (map fst ?b)"
    using assms(3) by simp
  ultimately have keys: "map fst ?a = map fst ?b"
    using sorted_distinct_set_unique [of "map fst ?a" "map fst ?b"] by blast
  have "inj_on fst (set ?a \<union> set ?b)"
    using assms by (simp add: distinct_map)
  with keys show ?thesis
    by (rule map_inj_on)
qed

lemma json_key_digest_order:
  assumes "URI a = URI b" and "distinct (map fst (Digest a))" and "distinct (map fst (Digest b))"
    and "set (Digest a) = set (Digest b)"
  shows "identity_key json_Marshal a = identity_key json_Marshal b"
proof -
  have "sort_key fst (Digest a) = sort_key fst (Digest b)"
    using assms(2-4) by (rule sort_key_fst_unique)
  moreover have "Digest a = [] \<longleftrightarrow> Digest b = []"
    using assms(4) by (metis set_empty)
  ultimately show ?thesis
    using assms(1)
    by (simp add: identity_key_def rDep_of_def json_Marshal_def json_DigestSet_def)
qed

text \<open>
  C9. Two descriptors with the same URI whose digest mappings hold the same entries,
  inserted in whatever order, have the same identity key, the serialization writing the
  keys in sorted order; the deduplicator then treats the second as a duplicate of the
  first: it is dropped unless it is protected.
\<close>

theorem digest_insertion_order_irrelevant:
  assumes "URI a = URI b" and "distinct (map fst (Digest a))" and "distinct (map fst (Digest b))"
    and "set (Digest a) = set (Digest b)"
  shows "identity_key json_Marshal a = identity_key json_Marshal b \<and>
         removeDuplicateResolvedDependencies json_Marshal [a, b] =
           (if protected_name b then [a, b] else [a], None) \<and>
         (\<not> protected_name b \<longrightarrow>
            removeDuplicateResolvedDependencies json_Marshal (pre @ a # mid @ b # post) =
            removeDuplicateResolvedDependencies json_Marshal (pre @ a # mid @ post))"
proof -
  let ?key = "identity_key json_Marshal"
  have key: "?key a = ?key b"
    using assms by (rule json_key_digest_order)
  have ok: "snd (removeDuplicateResolvedDependencies json_Marshal rds) = None" for rds
    by (simp only: removeDuplicate_ok_iff json_Marshal_ok) simp
  have all: "removeDuplicateResolvedDependencies json_Marshal rds = (survivors ?key {} rds, None)"
    for rds
    using ok by (rule removeDuplicate_survivors)
  have two: "removeDuplicateResolvedDependencies json_Marshal [a, b] =
             (if protected_name b then [a, b] else [a], None)"
    using key by (simp add: all)
  have "\<not> protected_name b \<longrightarrow>
        survivors ?key {} ((pre @ a # mid) @ b # post) = survivors ?key {} ((pre @ a # mid) @ post)"
    using key by (intro impI survivors_drop) simp_all
  then have "\<not> protected_name b \<longrightarrow>
        removeDuplicateResolvedDependencies json_Marshal (pre @ a # mid @ b # post) =
        removeDuplicateResolvedDependencies json_Marshal (pre @ a # mid @ post)"
    by (simp add: all)
  then show ?thesis
    using key two by blast
qed

theorem digest_insertion_order_irrelevant_witness:
  "identity_key json_Marshal ex_other = identity_key json_Marshal ex_other_rev \<and>
   removeDuplicateResolvedDependencies json_Marshal [ex_other, ex_other_rev] = ([ex_other], None)"
proof -
  have h: "URI ex_other = URI ex_other_rev" "distinct (map fst (Digest ex_other))"
    "distinct (map fst (Digest ex_other_rev))" "set (Digest ex_other) = set (Digest ex_other_rev)"
    by (auto simp: ex_other_def ex_other_rev_def)
  have "\<not> protected_name ex_other_rev"
    by (simp add: protected_name_def ex_other_rev_def taskConfigName_def pipelineConfigName_def)
  then show ?thesis
    using digest_insertion_order_irrelevant [OF h] by simp
qed

end
